theory Spec2Isabelle
  imports Main "HOL-Library.Multiset"
begin

section \<open>Outcomes of calls\<close>

text \<open>
  A Python call either returns a value or raises. A wrapped function \<open>func\<close> is a HOL
  function into a sum: \<open>Inl e\<close> when the call raises \<open>e\<close>, \<open>Inr y\<close> when it returns
  \<open>y\<close>. The wrappers can raise on their own account as well: \<open>os.cpu_count()\<close> is
  \<open>None\<close> on a host whose CPU count is undetermined, so that \<open>None * 2\<close> is a
  \<open>TypeError\<close>; \<open>multiprocessing.cpu_count()\<close> raises \<open>NotImplementedError\<close> there;
  \<open>lst[0]\<close> on an empty list is an \<open>IndexError\<close>, a dictionary read at a missing
  key a \<open>KeyError\<close>, and reading an attribute that an object does not have an
  \<open>AttributeError\<close>. \<open>Raised e\<close> is an exception of the wrapped function or class, or
  of a \<open>__repr__\<close> of one of its arguments, passed on as it is.
\<close>

datatype 'e exn =
  TypeError | NotImplementedError | IndexError | KeyError | AttributeError | Raised 'e

text \<open>
  What a wrapper does besides returning: a call of \<open>func\<close> in the caller's own thread
  of control, or a pool of \<open>n\<close> workers created for a batch of inputs and released when
  the batch is over.
\<close>

datatype 'a event = Call_Sync 'a | Pool_Map nat "'a list"

text \<open>The inputs that reached \<open>func\<close>: called in place, or handed to a pool.\<close>

fun inputs_of :: "'a event \<Rightarrow> 'a list" where
  "inputs_of (Call_Sync x) = [x]"
| "inputs_of (Pool_Map n xs) = xs"

definition dispatched :: "'a event list \<Rightarrow> 'a list" where
  "dispatched events = concat (map inputs_of events)"

section \<open>Worker sizing\<close>

text \<open>
  \<open>make_parallel.wrapper\<close>, lines 58 to 63: twice the CPU count, lowered to the length
  of the list when the list is shorter.
\<close>

definition thread_number_of_workers :: "nat \<Rightarrow> nat \<Rightarrow> nat" where
  "thread_number_of_workers cpu_count len =
     (let number_of_threads_multiple = 2;
          number_of_workers = cpu_count * number_of_threads_multiple
      in if len < number_of_workers then len else number_of_workers)"

text \<open>
  \<open>make_parallel_processes.wrapper\<close>, lines 99 to 103: the CPU count itself, lowered to
  the length of the list when the list is shorter.
\<close>

definition process_number_of_workers :: "nat \<Rightarrow> nat \<Rightarrow> nat" where
  "process_number_of_workers cpu_count len =
     (let number_of_workers = cpu_count
      in if len < number_of_workers then len else number_of_workers)"

section \<open>The thread pool\<close>

text \<open>
  \<open>concurrent.futures.as_completed\<close> yields every submitted future once, in the order
  in which the workers finish, which the program does not control. The order is a
  parameter of the model: a schedule is a list of numbers, and each number picks, modulo
  the number of futures still pending, the one that finishes next. A schedule that is too
  short lets the rest finish in submission order.
\<close>

function as_completed :: "nat list \<Rightarrow> 'x list \<Rightarrow> 'x list" where
  "as_completed sched [] = []"
| "as_completed [] (x # xs) = x # xs"
| "as_completed (k # ks) (x # xs) =
     (let pending = x # xs; i = k mod length pending
      in pending ! i # as_completed ks (take i pending @ drop (Suc i) pending))"
  by pat_completeness auto
termination
  by (relation "measure (\<lambda>(sched, pending). length pending)") auto

text \<open>
  Lines 76 and 77: \<open>future.result()\<close> returns the value of a call or raises what the
  call raised; the values are appended to \<open>result\<close> until a future raises.
\<close>

fun append_results :: "'b list \<Rightarrow> ('e + 'b) list \<Rightarrow> 'e exn + 'b list" where
  "append_results result [] = Inr result"
| "append_results result (Inl e # futures) = Inl (Raised e)"
| "append_results result (Inr y # futures) = append_results (result @ [y]) futures"

text \<open>\<open>make_parallel(func)\<close>, the wrapper of lines 47 to 80.\<close>

definition make_parallel ::
  "('a \<Rightarrow> 'e + 'b) \<Rightarrow> nat option \<Rightarrow> nat list \<Rightarrow> 'a list \<Rightarrow> 'a event list \<times> ('e exn + 'b list)" where
  "make_parallel func os_cpu_count sched lst =
     (case os_cpu_count of
        None \<Rightarrow> ([], Inl TypeError)
      | Some c \<Rightarrow>
          (let number_of_workers = thread_number_of_workers c (length lst)
           in if number_of_workers \<noteq> 0 then
                if number_of_workers = 1 then
                  (case lst of
                     [] \<Rightarrow> ([], Inl IndexError)
                   | x # _ \<Rightarrow>
                       ([Call_Sync x],
                        case func x of Inl e \<Rightarrow> Inl (Raised e) | Inr y \<Rightarrow> Inr [y]))
                else
                  ([Pool_Map number_of_workers lst],
                   append_results [] (as_completed sched (map func lst)))
              else ([], Inr [])))"

section \<open>The process pool\<close>

text \<open>
  \<open>joblib.Parallel(n_jobs)(tasks)\<close> returns the values of the tasks in the order of the
  tasks; when tasks raise, one of their exceptions reaches the caller and no list is
  returned. Which one depends on the timing of the workers: \<open>pick\<close> chooses among the
  exceptions raised.
\<close>

definition raised :: "('e + 'b) list \<Rightarrow> 'e list" where
  "raised outcomes = List.map_filter (\<lambda>r. case r of Inl e \<Rightarrow> Some e | Inr y \<Rightarrow> None) outcomes"

definition returned :: "('e + 'b) list \<Rightarrow> 'b list" where
  "returned outcomes = List.map_filter (\<lambda>r. case r of Inl e \<Rightarrow> None | Inr y \<Rightarrow> Some y) outcomes"

definition Parallel :: "nat \<Rightarrow> ('e + 'b) list \<Rightarrow> 'e exn + 'b list" where
  "Parallel pick outcomes =
     (let errors = raised outcomes
      in if errors = [] then Inr (returned outcomes)
         else Inl (Raised (errors ! (pick mod length errors))))"

text \<open>\<open>make_parallel_processes(func)\<close>, the wrapper of lines 91 to 117.\<close>

definition make_parallel_processes ::
  "('a \<Rightarrow> 'e + 'b) \<Rightarrow> nat option \<Rightarrow> nat \<Rightarrow> 'a list \<Rightarrow> 'a event list \<times> ('e exn + 'b list)" where
  "make_parallel_processes func cpu_count pick lst =
     (case cpu_count of
        None \<Rightarrow> ([], Inl NotImplementedError)
      | Some c \<Rightarrow>
          (let number_of_workers = process_number_of_workers c (length lst)
           in if number_of_workers \<noteq> 0 then
                if number_of_workers = 1 then
                  (case lst of
                     [] \<Rightarrow> ([], Inl IndexError)
                   | x # _ \<Rightarrow>
                       ([Call_Sync x],
                        case func x of Inl e \<Rightarrow> Inl (Raised e) | Inr y \<Rightarrow> Inr [y]))
                else
                  ([Pool_Map number_of_workers lst], Parallel pick (map func lst))
              else ([], Inr [])))"

section \<open>The timing wrapper\<close>

text \<open>
  A callable is called with positional arguments \<open>*args\<close> and keyword arguments
  \<open>**kw\<close> (a dictionary that keeps the order of the call, so an association list). It
  may have a \<open>__name__\<close>: a function defined with \<open>def\<close> or \<open>lambda\<close> has one, a
  \<open>functools.partial\<close> object or an instance of a class with \<open>__call__\<close> has none
  (\<open>func_name\<close> is \<open>None\<close>), and \<open>functools.wraps\<close> accepts both.
\<close>

record ('p, 'e, 'r) callable =
  func_name :: "string option"
  func_call :: "'p list \<Rightarrow> (string \<times> 'p) list \<Rightarrow> 'e + 'r"

text \<open>
  The \<open>%r\<close> of line 30 renders the tuple \<open>args\<close> and the dictionary \<open>kw\<close> by calling
  the \<open>__repr__\<close> of their elements, in order; \<open>repr_of\<close> is that method, which returns
  a string or raises. The first one that raises ends the rendering. The keys of \<open>kw\<close>
  are strings, which always render.
\<close>

fun render_all :: "('p \<Rightarrow> 'e + string) \<Rightarrow> 'p list \<Rightarrow> 'e + string list" where
  "render_all repr_of [] = Inr []"
| "render_all repr_of (v # vs) =
     (case repr_of v of
        Inl e \<Rightarrow> Inl e
      | Inr text \<Rightarrow>
          (case render_all repr_of vs of
             Inl e \<Rightarrow> Inl e
           | Inr texts \<Rightarrow> Inr (text # texts)))"

text \<open>
  The line printed at line 30: the name, the rendered positional arguments, the keyword
  arguments with their rendered values, and the elapsed time. The layout of the line and
  the \<open>%2.4f\<close> of a float are left to Python; standard output is a list that takes
  every line.
\<close>

datatype 't line = Took string "string list" "(string \<times> string) list" 't

text \<open>
  \<open>timing(func)\<close>, the wrapper of lines 26 to 31. \<open>start_time\<close> is what \<open>time()\<close> reads
  before the call and \<open>end_time\<close> what it reads after. When \<open>func\<close> raises, lines 29 to
  31 are not reached. When it returns, line 30 comes before \<open>return result\<close>: it reads
  \<open>func.__name__\<close> while it builds the tuple, then renders \<open>args\<close> and \<open>kw\<close>, and an
  exception of either step leaves the wrapper in place of the result, with nothing
  printed.
\<close>

definition timing ::
  "('p, 'e, 'r) callable \<Rightarrow> ('p \<Rightarrow> 'e + string) \<Rightarrow> 't::minus \<Rightarrow> 't \<Rightarrow> 'p list \<Rightarrow>
   (string \<times> 'p) list \<Rightarrow> 't line list \<Rightarrow> ('e exn + 'r) \<times> 't line list" where
  "timing func repr_of start_time end_time args kw printed =
     (case func_call func args kw of
        Inl e \<Rightarrow> (Inl (Raised e), printed)
      | Inr result \<Rightarrow>
          (let elapsed = end_time - start_time
           in case func_name func of
                None \<Rightarrow> (Inl AttributeError, printed)
              | Some name \<Rightarrow>
                  (case render_all repr_of args of
                     Inl e \<Rightarrow> (Inl (Raised e), printed)
                   | Inr shown_args \<Rightarrow>
                       (case render_all repr_of (map snd kw) of
                          Inl e \<Rightarrow> (Inl (Raised e), printed)
                        | Inr shown_kw \<Rightarrow>
                            (Inr result,
                             printed @ [Took name shown_args (zip (map fst kw) shown_kw) elapsed])))))"

section \<open>The singleton wrapper\<close>

text \<open>
  A class has an identity (the key of the dictionary), a \<open>__name__\<close> and a constructor,
  which builds an object from the arguments or raises.
\<close>

record ('p, 'e, 'v) pyclass =
  class_id :: nat
  class_name :: string
  construct :: "'p list \<Rightarrow> (string \<times> 'p) list \<Rightarrow> 'e + 'v"

text \<open>
  The state \<open>getinstance\<close> works on: the dictionary \<open>instances\<close> of the enclosing
  \<open>singleton\<close> call, from classes to references; the objects built so far, an object's
  reference being its position in \<open>heap\<close>, so that two references are the identical
  object exactly when they are equal; and the lines printed.
\<close>

record 'v store =
  instances :: "nat \<rightharpoonup> nat"
  heap :: "'v list"
  stdout :: "string list"

text \<open>Line 125: applying the decorator starts with an empty dictionary.\<close>

definition singleton :: "'v store \<Rightarrow> 'v store" where
  "singleton s = s\<lparr>instances := Map.empty\<rparr>"

text \<open>Line 131: \<open>return instances[class_]\<close>.\<close>

definition return_instance :: "('p, 'e, 'v) pyclass \<Rightarrow> 'v store \<Rightarrow> ('e exn + nat) \<times> 'v store" where
  "return_instance cls s =
     (case instances s (class_id cls) of
        None \<Rightarrow> (Inl KeyError, s)
      | Some ref \<Rightarrow> (Inr ref, s))"

text \<open>
  \<open>getinstance\<close>, lines 127 to 131. The right-hand side of line 130 is evaluated before
  the dictionary is written, so a constructor that raises leaves \<open>instances\<close> as it was;
  line 129 has printed by then.
\<close>

definition getinstance ::
  "('p, 'e, 'v) pyclass \<Rightarrow> 'p list \<Rightarrow> (string \<times> 'p) list \<Rightarrow> 'v store \<Rightarrow> ('e exn + nat) \<times> 'v store" where
  "getinstance cls args kwargs s =
     (if instances s (class_id cls) = None then
        (let s1 = s\<lparr>stdout := stdout s @ [''singleton(): creating class '' @ class_name cls]\<rparr>
         in case construct cls args kwargs of
              Inl e \<Rightarrow> (Inl (Raised e), s1)
            | Inr obj \<Rightarrow>
                return_instance cls
                  (s1\<lparr>heap := heap s1 @ [obj],
                      instances := (instances s1)(class_id cls \<mapsto> length (heap s1))\<rparr>))
      else return_instance cls s)"


section \<open>Facts about the sizing\<close>

lemma thread_number_of_workers_min: "thread_number_of_workers c n = min (c * 2) n"
  by (simp add: thread_number_of_workers_def min_def)

lemma process_number_of_workers_min: "process_number_of_workers c n = min c n"
  by (simp add: process_number_of_workers_def min_def)

section \<open>Facts about the completion order\<close>

text \<open>
  Whatever the schedule, \<open>as_completed\<close> hands out every pending future once: its
  result is a rearrangement of the futures submitted.
\<close>

lemma mset_remove_nth:
  assumes "i < length xs"
  shows "mset (xs ! i # take i xs @ drop (Suc i) xs) = mset xs"
proof -
  from assms have "xs = take i xs @ xs ! i # drop (Suc i) xs"
    by (rule id_take_nth_drop)
  then have "mset xs = mset (take i xs @ xs ! i # drop (Suc i) xs)"
    by simp
  then show ?thesis by simp
qed

lemma mset_as_completed: "mset (as_completed sched xs) = mset xs"
proof (induction sched xs rule: as_completed.induct)
  case (3 k ks x xs)
  let ?p = "x # xs"
  let ?i = "k mod length ?p"
  have i: "?i < length ?p" by simp
  have "mset (as_completed (k # ks) ?p) = mset (?p ! ?i # take ?i ?p @ drop (Suc ?i) ?p)"
    using 3 by (simp add: Let_def del: nth_Cons_Suc take_Suc_Cons drop_Suc_Cons)
  also have "\<dots> = mset ?p" using i by (rule mset_remove_nth)
  finally show ?case .
qed simp_all

lemma set_as_completed: "set (as_completed sched xs) = set xs"
  using mset_as_completed [of sched xs] by (rule mset_eq_setD)

lemma as_completed_map: "as_completed sched (map h xs) = map h (as_completed sched xs)"
proof (induction sched xs rule: as_completed.induct)
  case (3 k ks x xs)
  let ?p = "x # xs"
  let ?i = "k mod length ?p"
  have i: "?i < length ?p" by simp
  have "as_completed (k # ks) (map h ?p) =
        map h ?p ! ?i # as_completed ks (take ?i (map h ?p) @ drop (Suc ?i) (map h ?p))"
    by (simp add: Let_def del: nth_Cons_Suc take_Suc_Cons drop_Suc_Cons)
  also have "\<dots> = h (?p ! ?i) # as_completed ks (map h (take ?i ?p @ drop (Suc ?i) ?p))"
    using i by (simp only: nth_map take_map drop_map map_append)
  also have "\<dots> = map h (as_completed (k # ks) ?p)"
    using 3 by (simp add: Let_def del: nth_Cons_Suc take_Suc_Cons drop_Suc_Cons)
  finally show ?case .
qed simp_all

lemma as_completed_single: "as_completed sched [y] = [y]"
  by (cases sched) simp_all

text \<open>
  And every rearrangement is the completion order of some schedule: the model leaves the
  order as free as the thread pool does.
\<close>

lemma as_completed_pick:
  assumes "i < length xs"
  shows "as_completed (i # sched) xs = xs ! i # as_completed sched (take i xs @ drop (Suc i) xs)"
proof (cases xs)
  case Nil
  with assms show ?thesis by simp
next
  case (Cons a as)
  with assms have "i mod length (a # as) = i" by simp
  then have "as_completed (i # sched) (a # as) =
             (a # as) ! i # as_completed sched (take i (a # as) @ drop (Suc i) (a # as))"
    by (simp add: Let_def del: nth_Cons_Suc take_Suc_Cons drop_Suc_Cons length_Cons)
  with Cons show ?thesis by simp
qed

lemma as_completed_any_order:
  assumes "mset ys = mset xs"
  shows "\<exists>sched. as_completed sched xs = ys"
  using assms
proof (induction ys arbitrary: xs)
  case Nil
  then have "xs = []" by simp
  then show ?case by simp
next
  case (Cons y ys)
  from Cons.prems have "y \<in> set xs"
    by (metis list.set_intros(1) mset_eq_setD)
  then obtain i where i: "i < length xs" and y: "xs ! i = y"
    by (auto simp: in_set_conv_nth)
  let ?rest = "take i xs @ drop (Suc i) xs"
  from mset_remove_nth [OF i] y have "mset (y # ?rest) = mset xs" by simp
  with Cons.prems have "mset (y # ys) = mset (y # ?rest)" by simp
  then have "add_mset y (mset ys) = add_mset y (mset ?rest)" by (simp only: mset.simps)
  then have "mset ys = mset ?rest" by (simp only: add_mset_add_mset_same_iff)
  then obtain sched where "as_completed sched ?rest = ys"
    using Cons.IH by blast
  with as_completed_pick [OF i, of sched] y have "as_completed (i # sched) xs = y # ys"
    by simp
  then show ?case ..
qed

section \<open>Facts about collecting the results\<close>

lemma append_results_returns: "append_results acc (map Inr ys) = Inr (acc @ ys)"
  by (induction ys arbitrary: acc) simp_all

lemma append_results_raises:
  assumes "Inl e \<in> set outcomes"
  shows "\<exists>e'. Inl e' \<in> set outcomes \<and> append_results acc outcomes = Inl (Raised e')"
  using assms
proof (induction acc outcomes rule: append_results.induct)
  case (1 result)
  then show ?case by simp
next
  case (2 result e0 futures)
  then show ?case by auto
next
  case (3 result y futures)
  then show ?case by auto
qed

lemma raised_returns: "raised (map Inr ys) = []"
  by (induction ys) (simp_all add: raised_def map_filter_simps)

lemma returned_returns: "returned (map Inr ys) = ys"
  by (induction ys) (simp_all add: returned_def map_filter_simps)

lemma Parallel_returns: "Parallel pick (map Inr ys) = Inr ys"
  by (simp add: Parallel_def raised_returns returned_returns)

lemma set_raised: "set (raised outcomes) = {e. Inl e \<in> set outcomes}"
  by (induction outcomes) (auto simp: raised_def map_filter_simps split: sum.splits)

lemma Parallel_raises:
  assumes "Inl e \<in> set outcomes"
  shows "\<exists>e'. Inl e' \<in> set outcomes \<and> Parallel pick outcomes = Inl (Raised e')"
proof -
  let ?errors = "raised outcomes"
  from assms have "e \<in> set ?errors" by (simp add: set_raised)
  then have ne: "?errors \<noteq> []" by auto
  then have "pick mod length ?errors < length ?errors" by simp
  then have "?errors ! (pick mod length ?errors) \<in> set ?errors" by (rule nth_mem)
  then have "Inl (?errors ! (pick mod length ?errors)) \<in> set outcomes"
    by (simp add: set_raised)
  moreover have "Parallel pick outcomes = Inl (Raised (?errors ! (pick mod length ?errors)))"
    using ne by (simp add: Parallel_def Let_def)
  ultimately show ?thesis by blast
qed

lemma map_returns:
  assumes "\<forall>x\<in>set lst. func x = Inr (g x)"
  shows "map func lst = map Inr (map g lst)"
  using assms by simp

lemma raising_input:
  assumes "Inl e' \<in> set (map func lst)"
  shows "\<exists>x'. x' \<in> set lst \<and> func x' = Inl e'"
  using assms by auto

section \<open>Facts about the two wrappers\<close>

text \<open>On the empty list both wrappers return the empty list, and nothing else happens.\<close>

lemma make_parallel_empty: "make_parallel func (Some c) sched [] = ([], Inr [])"
  by (simp add: make_parallel_def thread_number_of_workers_min)

lemma make_parallel_processes_empty: "make_parallel_processes func (Some c) pick [] = ([], Inr [])"
  by (simp add: make_parallel_processes_def process_number_of_workers_min)

text \<open>
  When every call returns, the thread-based wrapper returns the values in completion
  order, as many as there are inputs.
\<close>

lemma make_parallel_returns:
  assumes "0 < c" and "\<forall>x\<in>set lst. func x = Inr (g x)"
  shows "snd (make_parallel func (Some c) sched lst) = Inr (as_completed sched (map g lst))"
proof (cases "thread_number_of_workers c (length lst) \<le> 1")
  case True
  with \<open>0 < c\<close> have "length lst \<le> 1"
    by (simp add: thread_number_of_workers_min min_def split: if_splits)
  then consider "lst = []" | x where "lst = [x]"
    by (cases lst) auto
  then show ?thesis
  proof cases
    case 1
    then show ?thesis
      by (simp add: make_parallel_def thread_number_of_workers_min)
  next
    case 2
    with assms show ?thesis
      by (simp add: make_parallel_def thread_number_of_workers_min as_completed_single)
  qed
next
  case False
  then have "snd (make_parallel func (Some c) sched lst) =
             append_results [] (as_completed sched (map func lst))"
    by (simp add: make_parallel_def Let_def)
  also have "\<dots> = append_results [] (map Inr (as_completed sched (map g lst)))"
    by (simp only: map_returns [OF assms(2)] as_completed_map)
  also have "\<dots> = Inr (as_completed sched (map g lst))"
    by (simp add: append_results_returns)
  finally show ?thesis .
qed

lemma make_parallel_length:
  assumes "0 < c" and "\<forall>x\<in>set lst. func x = Inr (g x)"
  shows "\<exists>R. snd (make_parallel func (Some c) sched lst) = Inr R \<and> length R = length lst"
proof -
  have "size (mset (as_completed sched (map g lst))) = size (mset (map g lst))"
    by (simp only: mset_as_completed)
  then have "length (as_completed sched (map g lst)) = length lst" by simp
  with make_parallel_returns [OF assms] show ?thesis by blast
qed

text \<open>
  The completion order is free: with the schedule \<open>[2, 0]\<close> the third call finishes
  first, and the result is not in the order of the input.
\<close>

lemma make_parallel_order_example:
  "snd (make_parallel (\<lambda>x. Inr (x * x) :: unit + int) (Some 4) [2, 0] [1, 2, 3]) = Inr [9, 1, 4]"
  by (simp add: make_parallel_def thread_number_of_workers_def)

text \<open>
  On a host with two CPUs or more, and on a single CPU for a list of at most one element,
  the process-based wrapper returns the values in the order of the input.
\<close>

lemma make_parallel_processes_returns:
  assumes "2 \<le> c \<or> (c = 1 \<and> length lst \<le> 1)" and "\<forall>x\<in>set lst. func x = Inr (g x)"
  shows "snd (make_parallel_processes func (Some c) pick lst) = Inr (map g lst)"
proof (cases "process_number_of_workers c (length lst) \<le> 1")
  case True
  with assms(1) have "length lst \<le> 1"
    by (auto simp: process_number_of_workers_min min_def split: if_splits)
  then consider "lst = []" | x where "lst = [x]"
    by (cases lst) auto
  then show ?thesis
  proof cases
    case 1
    then show ?thesis by (simp add: make_parallel_processes_empty)
  next
    case 2
    with assms show ?thesis
      by (auto simp: make_parallel_processes_def process_number_of_workers_min)
  qed
next
  case False
  then have "snd (make_parallel_processes func (Some c) pick lst) = Parallel pick (map func lst)"
    by (simp add: make_parallel_processes_def Let_def)
  also have "\<dots> = Parallel pick (map Inr (map g lst))"
    by (simp only: map_returns [OF assms(2)])
  also have "\<dots> = Inr (map g lst)" by (rule Parallel_returns)
  finally show ?thesis .
qed

text \<open>
  An input reaches \<open>func\<close> in one of two ways: it is the head of the list and is called
  in place, or the whole list went to a pool.
\<close>

lemma dispatched_simps:
  "dispatched [] = []"
  "dispatched [Call_Sync x] = [x]"
  "dispatched [Pool_Map n xs] = xs"
  by (simp_all add: dispatched_def)

lemma make_parallel_dispatched:
  assumes "x \<in> set (dispatched (fst (make_parallel func cpu sched lst)))"
  obtains (serial) c rest where "cpu = Some c" and "lst = x # rest"
      and "snd (make_parallel func cpu sched lst) =
           (case func x of Inl e \<Rightarrow> Inl (Raised e) | Inr y \<Rightarrow> Inr [y])"
    | (pool) c where "cpu = Some c" and "x \<in> set lst"
      and "snd (make_parallel func cpu sched lst) =
           append_results [] (as_completed sched (map func lst))"
proof (cases cpu)
  case None
  with assms show ?thesis
    by (simp add: make_parallel_def dispatched_simps)
next
  case (Some c)
  let ?w = "thread_number_of_workers c (length lst)"
  consider "?w = 0" | "?w = 1" | "?w \<noteq> 0" "?w \<noteq> 1" by blast
  then show ?thesis
  proof cases
    case 1
    with assms Some show ?thesis
      by (simp add: make_parallel_def dispatched_simps)
  next
    case 2
    with assms Some obtain rest where lst: "lst = x # rest"
      by (cases lst) (simp_all add: make_parallel_def dispatched_simps)
    show ?thesis
    proof (rule serial [OF Some lst])
      from 2 show "snd (make_parallel func cpu sched lst) =
          (case func x of Inl e \<Rightarrow> Inl (Raised e) | Inr y \<Rightarrow> Inr [y])"
        by (simp add: make_parallel_def Some lst)
    qed
  next
    case 3
    with assms Some have mem: "x \<in> set lst"
      by (simp add: make_parallel_def dispatched_simps Let_def)
    show ?thesis
    proof (rule pool [OF Some mem])
      from 3 show "snd (make_parallel func cpu sched lst) = append_results [] (as_completed sched (map func lst))"
        by (simp add: make_parallel_def Some Let_def)
    qed
  qed
qed

lemma make_parallel_processes_dispatched:
  assumes "x \<in> set (dispatched (fst (make_parallel_processes func cpu pick lst)))"
  obtains (serial) c rest where "cpu = Some c" and "lst = x # rest"
      and "snd (make_parallel_processes func cpu pick lst) =
           (case func x of Inl e \<Rightarrow> Inl (Raised e) | Inr y \<Rightarrow> Inr [y])"
    | (pool) c where "cpu = Some c" and "x \<in> set lst"
      and "snd (make_parallel_processes func cpu pick lst) = Parallel pick (map func lst)"
proof (cases cpu)
  case None
  with assms show ?thesis
    by (simp add: make_parallel_processes_def dispatched_simps)
next
  case (Some c)
  let ?w = "process_number_of_workers c (length lst)"
  consider "?w = 0" | "?w = 1" | "?w \<noteq> 0" "?w \<noteq> 1" by blast
  then show ?thesis
  proof cases
    case 1
    with assms Some show ?thesis
      by (simp add: make_parallel_processes_def dispatched_simps)
  next
    case 2
    with assms Some obtain rest where lst: "lst = x # rest"
      by (cases lst) (simp_all add: make_parallel_processes_def dispatched_simps)
    show ?thesis
    proof (rule serial [OF Some lst])
      from 2 show "snd (make_parallel_processes func cpu pick lst) =
          (case func x of Inl e \<Rightarrow> Inl (Raised e) | Inr y \<Rightarrow> Inr [y])"
        by (simp add: make_parallel_processes_def Some lst)
    qed
  next
    case 3
    with assms Some have mem: "x \<in> set lst"
      by (simp add: make_parallel_processes_def dispatched_simps Let_def)
    show ?thesis
    proof (rule pool [OF Some mem])
      from 3 show "snd (make_parallel_processes func cpu pick lst) = Parallel pick (map func lst)"
        by (simp add: make_parallel_processes_def Some Let_def)
    qed
  qed
qed

section \<open>Facts about the singleton wrapper\<close>



lemma getinstance_constructs:
  assumes "instances s (class_id cls) = None" and "construct cls args kwargs = Inr obj"
  shows "getinstance cls args kwargs s =
         (Inr (length (heap s)),
          s\<lparr>stdout := stdout s @ [''singleton(): creating class '' @ class_name cls],
            heap := heap s @ [obj],
            instances := (instances s)(class_id cls \<mapsto> length (heap s))\<rparr>)"
  using assms by (simp add: getinstance_def return_instance_def Let_def)

lemma getinstance_raises:
  assumes "instances s (class_id cls) = None" and "construct cls args kwargs = Inl e"
  shows "getinstance cls args kwargs s =
         (Inl (Raised e), s\<lparr>stdout := stdout s @ [''singleton(): creating class '' @ class_name cls]\<rparr>)"
  using assms by (simp add: getinstance_def Let_def)

section \<open>The process-based wrapper on a single CPU\<close>

text \<open>
  Claim C1 says that \<open>make_parallel_processes(func)(lst)\<close> is the elementwise map of
  \<open>func\<close> over \<open>lst\<close>, in order, for every non-empty \<open>lst\<close>. On a host where
  \<open>multiprocessing.cpu_count()\<close> is 1 the worker count is 1 for every non-empty list, the
  branch of line 110 is taken, and only \<open>lst[0]\<close> is ever passed to \<open>func\<close>: for
  \<open>func = lambda x: x * x\<close> and \<open>lst = [1, 2]\<close> the wrapper returns \<open>[1]\<close>, not
  \<open>[1, 4]\<close>. The comment of lines 107 to 109 describes that branch as the one for a
  list of length 1.
\<close>

theorem single_cpu_processes_first_only:
  "make_parallel_processes (\<lambda>x. Inr (x * x) :: unit + int) (Some 1) 0 [1, 2] = ([Call_Sync 1], Inr [1])"
  by (simp add: make_parallel_processes_def process_number_of_workers_def)

text \<open>
  Claim C2 says that the output of both wrappers has as many elements as the input. On
  the same single-CPU host the process-based wrapper returns one element for the
  three-element list \<open>[3, 4, 5]\<close>. (\<open>make_parallel_length\<close> above is the claim for the
  thread-based wrapper, \<open>make_parallel_empty\<close> and \<open>make_parallel_processes_empty\<close> the
  claim for the empty list.)
\<close>

theorem single_cpu_processes_length:
  "\<exists>R. snd (make_parallel_processes (Inr :: nat \<Rightarrow> unit + nat) (Some 1) 0 [3, 4, 5]) = Inr R \<and>
        length R = 1 \<and> length [3, 4, 5 :: nat] = 3"
  by (simp add: make_parallel_processes_def process_number_of_workers_def)

section \<open>Worker counts\<close>

text \<open>
  Claim C3 says that the process-based wrapper sizes its pool by the formula of the
  thread-based one, \<open>min (C * 2) |L|\<close>. It does not: with 4 CPUs and 100 inputs its
  worker count is 4, not 8.
\<close>

theorem process_workers_not_doubled:
  "process_number_of_workers 4 100 \<noteq> min (4 * 2) 100"
  by (simp add: process_number_of_workers_def)

text \<open>
  Claim C3, amended. The worker count of the process-based wrapper is \<open>min C |L|\<close>,
  the CPU count without the factor 2, lowered to the length of the list; and when that
  count is 2 or more, the wrapper creates one pool, of exactly that many workers, for the
  whole list.
\<close>

theorem process_pool_size:
  "process_number_of_workers c n = min c n \<and>
   (2 \<le> process_number_of_workers c (length lst) \<longrightarrow>
      fst (make_parallel_processes func (Some c) pick lst) = [Pool_Map (min c (length lst)) lst])"
proof (intro conjI impI)
  show "process_number_of_workers c n = min c n"
    by (rule process_number_of_workers_min)
next
  assume "2 \<le> process_number_of_workers c (length lst)"
  then have "process_number_of_workers c (length lst) \<noteq> 0"
    and "process_number_of_workers c (length lst) \<noteq> 1"
    by simp_all
  then show "fst (make_parallel_processes func (Some c) pick lst) = [Pool_Map (min c (length lst)) lst]"
    by (simp add: make_parallel_processes_def Let_def process_number_of_workers_min [symmetric])
qed

theorem process_pool_size_witness:
  "process_number_of_workers 4 100 = min 4 100 \<and>
   2 \<le> process_number_of_workers 4 (length (replicate 100 (0::nat))) \<and>
   fst (make_parallel_processes (Inr :: nat \<Rightarrow> unit + nat) (Some 4) 0 (replicate 100 0)) =
     [Pool_Map 4 (replicate 100 0)]"
proof -
  have h: "2 \<le> process_number_of_workers 4 (length (replicate 100 (0::nat)))"
    by (simp add: process_number_of_workers_def)
  from process_pool_size [of 4 100 "replicate 100 (0::nat)" "Inr :: nat \<Rightarrow> unit + nat" 0] h
  show ?thesis by simp
qed

text \<open>
  Claim C5. The worker count of the thread-based wrapper is \<open>min (C * 2) |L|\<close>; for
  \<open>C = 4\<close> and a list of length 100 it is 8; and when the count is 2 or more, the
  wrapper creates one pool, of exactly that many workers, for the whole list.
\<close>

theorem thread_pool_size:
  "thread_number_of_workers c n = min (c * 2) n \<and>
   thread_number_of_workers 4 100 = 8 \<and>
   (2 \<le> thread_number_of_workers c (length lst) \<longrightarrow>
      fst (make_parallel func (Some c) sched lst) = [Pool_Map (min (c * 2) (length lst)) lst])"
proof (intro conjI impI)
  show "thread_number_of_workers c n = min (c * 2) n"
    by (rule thread_number_of_workers_min)
next
  show "thread_number_of_workers 4 100 = 8"
    by (simp add: thread_number_of_workers_def)
next
  assume "2 \<le> thread_number_of_workers c (length lst)"
  then have "thread_number_of_workers c (length lst) \<noteq> 0"
    and "thread_number_of_workers c (length lst) \<noteq> 1"
    by simp_all
  then show "fst (make_parallel func (Some c) sched lst) = [Pool_Map (min (c * 2) (length lst)) lst]"
    by (simp add: make_parallel_def Let_def thread_number_of_workers_min [symmetric])
qed

theorem thread_pool_size_witness:
  "thread_number_of_workers 4 100 = min (4 * 2) 100 \<and>
   2 \<le> thread_number_of_workers 4 (length (replicate 100 (0::nat))) \<and>
   fst (make_parallel (Inr :: nat \<Rightarrow> unit + nat) (Some 4) [] (replicate 100 0)) =
     [Pool_Map 8 (replicate 100 0)]"
proof -
  have h: "2 \<le> thread_number_of_workers 4 (length (replicate 100 (0::nat)))"
    by (simp add: thread_number_of_workers_def)
  from thread_pool_size [of 4 100 "replicate 100 (0::nat)" "Inr :: nat \<Rightarrow> unit + nat" "[]"] h
  show ?thesis by simp
qed

section \<open>Lists of one element\<close>

text \<open>
  Claim C6. On a host with \<open>c > 0\<close> CPUs and for a list of length exactly 1, each of the
  two wrappers does one thing only, a call of \<open>func\<close> on \<open>lst[0]\<close> in the caller's own
  thread of control: no pool is created. If the call returns \<open>y\<close> the wrapper returns
  \<open>[y]\<close>; if it raises, the wrapper raises the same.
\<close>

theorem single_element_runs_serially:
  assumes "0 < c" and "length lst = 1"
  shows "make_parallel func (Some c) sched lst =
           ([Call_Sync (lst ! 0)],
            case func (lst ! 0) of Inl e \<Rightarrow> Inl (Raised e) | Inr y \<Rightarrow> Inr [y]) \<and>
         make_parallel_processes func (Some c) pick lst =
           ([Call_Sync (lst ! 0)],
            case func (lst ! 0) of Inl e \<Rightarrow> Inl (Raised e) | Inr y \<Rightarrow> Inr [y])"
proof -
  from assms(2) obtain x where lst: "lst = [x]"
    by (cases lst) auto
  from assms(1) have "thread_number_of_workers c 1 = 1" and "process_number_of_workers c 1 = 1"
    by (simp_all add: thread_number_of_workers_min process_number_of_workers_min)
  then show ?thesis
    by (simp add: lst make_parallel_def make_parallel_processes_def)
qed

theorem single_element_runs_serially_witness:
  "(0::nat) < 8 \<and> length [7 :: int] = 1 \<and>
   make_parallel (\<lambda>x. Inr (x * x) :: unit + int) (Some 8) [3] [7] = ([Call_Sync 7], Inr [49]) \<and>
   make_parallel_processes (\<lambda>x. Inr (x * x) :: unit + int) (Some 8) 0 [7] = ([Call_Sync 7], Inr [49])"
proof -
  have h1: "(0::nat) < 8" by simp
  have h2: "length [7 :: int] = 1" by simp
  from single_element_runs_serially [OF h1 h2, of "\<lambda>x. Inr (x * x) :: unit + int" "[3]" 0]
  show ?thesis by simp
qed

section \<open>The thread-based wrapper\<close>

text \<open>
  Claim C4. For a non-empty list \<open>lst\<close> and a function \<open>func\<close> that returns \<open>g x\<close> on
  every element \<open>x\<close> of it, on a host with \<open>c > 0\<close> CPUs, \<open>make_parallel(func)(lst)\<close>
  returns a list whatever the completion order \<open>sched\<close> is, and the elements of that
  list, as a set, are the values \<open>g x\<close> for \<open>x\<close> in \<open>lst\<close>. More than that holds: the
  result is a rearrangement of \<open>map g lst\<close>, each value as often as the input gives it.
  Nothing is said about the order.
\<close>

theorem make_parallel_same_values:
  assumes "0 < c" and "lst \<noteq> []" and "\<forall>x\<in>set lst. func x = Inr (g x)"
  shows "\<exists>R. snd (make_parallel func (Some c) sched lst) = Inr R \<and>
             set R = g ` set lst \<and> mset R = mset (map g lst)"
proof -
  let ?R = "as_completed sched (map g lst)"
  have m: "mset ?R = mset (map g lst)" by (rule mset_as_completed)
  then have "set ?R = set (map g lst)" by (rule mset_eq_setD)
  then have "set ?R = g ` set lst" by simp
  with m make_parallel_returns [OF assms(1) assms(3)] show ?thesis by blast
qed

theorem make_parallel_same_values_witness:
  "(0::nat) < 4 \<and> [1, 2, 3 :: int] \<noteq> [] \<and>
   list_all (\<lambda>x. (Inr (x * x) :: unit + int) = Inr (x * x)) [1, 2, 3] \<and>
   (\<exists>R. snd (make_parallel (\<lambda>x. Inr (x * x) :: unit + int) (Some 4) [2, 0] [1, 2, 3]) = Inr R \<and>
        set R = (\<lambda>x. x * x) ` set [1, 2, 3] \<and> mset R = mset (map (\<lambda>x. x * x) [1, 2, 3]))"
proof -
  have h1: "(0::nat) < 4" by simp
  have h2: "[1, 2, 3 :: int] \<noteq> []" by simp
  have h3: "\<forall>x\<in>set [1, 2, 3 :: int]. (Inr (x * x) :: unit + int) = Inr (x * x)" by simp
  have "\<exists>R. snd (make_parallel (\<lambda>x. Inr (x * x) :: unit + int) (Some 4) [2, 0] [1, 2, 3]) = Inr R \<and>
        set R = (\<lambda>x. x * x) ` set [1, 2, 3] \<and> mset R = mset (map (\<lambda>x. x * x) [1, 2, 3])"
    using make_parallel_same_values [OF h1 h2, of "\<lambda>x. Inr (x * x) :: unit + int" "\<lambda>x. x * x" "[2, 0]", OF h3] .
  then show ?thesis by simp
qed

section \<open>Failing calls\<close>

text \<open>
  Claim C8. Let \<open>x\<close> be an input that reached \<open>func\<close> in a run of either wrapper, and
  let the call \<open>func x\<close> raise. Then the wrapper returns no list, partial or not: it
  raises, and what it raises is an exception \<open>e'\<close> that \<open>func\<close> raised on an element
  \<open>x'\<close> of the input, passed on as it is, neither wrapped nor retried. When several
  calls raise, the one that is retrieved first wins.
\<close>

theorem worker_failure_propagates:
  assumes "func x = Inl e"
  shows "(x \<in> set (dispatched (fst (make_parallel func cpu sched lst))) \<longrightarrow>
            (\<exists>x' e'. x' \<in> set lst \<and> func x' = Inl e' \<and>
               snd (make_parallel func cpu sched lst) = Inl (Raised e'))) \<and>
         (x \<in> set (dispatched (fst (make_parallel_processes func cpu pick lst))) \<longrightarrow>
            (\<exists>x' e'. x' \<in> set lst \<and> func x' = Inl e' \<and>
               snd (make_parallel_processes func cpu pick lst) = Inl (Raised e')))"
proof (intro conjI impI)
  assume "x \<in> set (dispatched (fst (make_parallel func cpu sched lst)))"
  then show "\<exists>x' e'. x' \<in> set lst \<and> func x' = Inl e' \<and>
               snd (make_parallel func cpu sched lst) = Inl (Raised e')"
  proof (cases rule: make_parallel_dispatched)
    case (serial c rest)
    from serial(3) assms have "snd (make_parallel func cpu sched lst) = Inl (Raised e)"
      by simp
    moreover from serial(2) have "x \<in> set lst" by simp
    ultimately show ?thesis using assms by (intro exI [of _ x] exI [of _ e] conjI)
  next
    case (pool c)
    from pool(2) have "func x \<in> set (map func lst)" by simp
    with assms have "Inl e \<in> set (map func lst)" by simp
    then have "Inl e \<in> set (as_completed sched (map func lst))"
      by (simp only: set_as_completed)
    from append_results_raises [OF this, of "[]"]
    obtain e' where "Inl e' \<in> set (as_completed sched (map func lst))"
      and r: "append_results [] (as_completed sched (map func lst)) = Inl (Raised e')"
      by (elim exE conjE)
    then have "Inl e' \<in> set (map func lst)"
      by (simp only: set_as_completed)
    from raising_input [OF this]
    obtain x' where "x' \<in> set lst" and "func x' = Inl e'"
      by (elim exE conjE)
    moreover from r pool(3) have "snd (make_parallel func cpu sched lst) = Inl (Raised e')"
      by simp
    ultimately show ?thesis by (intro exI [of _ x'] exI [of _ e'] conjI)
  qed
next
  assume "x \<in> set (dispatched (fst (make_parallel_processes func cpu pick lst)))"
  then show "\<exists>x' e'. x' \<in> set lst \<and> func x' = Inl e' \<and>
               snd (make_parallel_processes func cpu pick lst) = Inl (Raised e')"
  proof (cases rule: make_parallel_processes_dispatched)
    case (serial c rest)
    from serial(3) assms have "snd (make_parallel_processes func cpu pick lst) = Inl (Raised e)"
      by simp
    moreover from serial(2) have "x \<in> set lst" by simp
    ultimately show ?thesis using assms by (intro exI [of _ x] exI [of _ e] conjI)
  next
    case (pool c)
    from pool(2) have "func x \<in> set (map func lst)" by simp
    with assms have "Inl e \<in> set (map func lst)" by simp
    from Parallel_raises [OF this, of pick]
    obtain e' where m: "Inl e' \<in> set (map func lst)"
      and r: "Parallel pick (map func lst) = Inl (Raised e')"
      by (elim exE conjE)
    from raising_input [OF m]
    obtain x' where "x' \<in> set lst" and "func x' = Inl e'"
      by (elim exE conjE)
    moreover from r pool(3) have "snd (make_parallel_processes func cpu pick lst) = Inl (Raised e')"
      by simp
    ultimately show ?thesis by (intro exI [of _ x'] exI [of _ e'] conjI)
  qed
qed

theorem worker_failure_propagates_witness:
  "(if (2::nat) = 2 then Inl (5::nat) else (Inr 2 :: nat + nat)) = Inl 5 \<and>
   2 \<in> set (dispatched (fst (make_parallel
          (\<lambda>x::nat. if x = 2 then Inl (5::nat) else (Inr x :: nat + nat)) (Some 4) [] [1, 2, 3]))) \<and>
   (\<exists>x' e'. x' \<in> set [1, 2, 3] \<and> (if x' = 2 then Inl (5::nat) else (Inr x' :: nat + nat)) = Inl e' \<and>
      snd (make_parallel (\<lambda>x::nat. if x = 2 then Inl (5::nat) else (Inr x :: nat + nat))
             (Some 4) [] [1, 2, 3]) = Inl (Raised e')) \<and>
   2 \<in> set (dispatched (fst (make_parallel_processes
          (\<lambda>x::nat. if x = 2 then Inl (5::nat) else (Inr x :: nat + nat)) (Some 4) 0 [1, 2, 3]))) \<and>
   (\<exists>x' e'. x' \<in> set [1, 2, 3] \<and> (if x' = 2 then Inl (5::nat) else (Inr x' :: nat + nat)) = Inl e' \<and>
      snd (make_parallel_processes (\<lambda>x::nat. if x = 2 then Inl (5::nat) else (Inr x :: nat + nat))
             (Some 4) 0 [1, 2, 3]) = Inl (Raised e'))"
proof -
  let ?f = "\<lambda>x::nat. if x = 2 then Inl (5::nat) else (Inr x :: nat + nat)"
  have h: "?f 2 = Inl 5" by simp
  have p1: "2 \<in> set (dispatched (fst (make_parallel ?f (Some 4) [] [1, 2, 3])))"
    by (simp add: make_parallel_def thread_number_of_workers_def dispatched_def)
  have p2: "2 \<in> set (dispatched (fst (make_parallel_processes ?f (Some 4) 0 [1, 2, 3])))"
    by (simp add: make_parallel_processes_def process_number_of_workers_def dispatched_def)
  note w = worker_failure_propagates [of ?f 2 5 "Some 4" "[]" "[1, 2, 3]" 0, OF h]
  from w [THEN conjunct1, THEN mp, OF p1] have c1: "\<exists>x' e'. x' \<in> set [1, 2, 3] \<and> ?f x' = Inl e' \<and>
      snd (make_parallel ?f (Some 4) [] [1, 2, 3]) = Inl (Raised e')"
    .
  from w [THEN conjunct2, THEN mp, OF p2] have c2: "\<exists>x' e'. x' \<in> set [1, 2, 3] \<and> ?f x' = Inl e' \<and>
      snd (make_parallel_processes ?f (Some 4) 0 [1, 2, 3]) = Inl (Raised e')"
    .
  from h p1 c1 p2 c2 show ?thesis by (intro conjI)
qed

section \<open>What the timing wrapper returns\<close>



text \<open>
  An argument whose \<open>__repr__\<close> raises has the same effect as a missing name: the
  function has returned 7, and the caller gets the exception of the rendering.
\<close>

lemma timing_repr_raises_example:
  "fst (timing \<lparr>func_name = Some ''f'', func_call = (\<lambda>args kw. Inr 7 :: nat + nat)\<rparr>
          (\<lambda>v::nat. if v = 0 then Inl (13::nat) else Inr ''v'') (0::int) 1 [1, 0] [] []) =
   Inl (Raised 13)"
  by (simp add: timing_def)




section \<open>One instance per class\<close>



text \<open>
  Claim C10. Let no instance be cached and let the constructor raise \<open>e\<close> on the
  arguments of a request. Then the request raises \<open>e\<close>, and leaves the cache and the
  objects as they were. The next request runs the constructor again, on its own
  arguments: it raises what the constructor raises on them, or returns the reference of
  the object newly built from them.
\<close>

theorem failed_construction_not_cached:
  assumes "instances s (class_id cls) = None" and "construct cls args kwargs = Inl e"
  shows "fst (getinstance cls args kwargs s) = Inl (Raised e) \<and>
         instances (snd (getinstance cls args kwargs s)) = instances s \<and>
         heap (snd (getinstance cls args kwargs s)) = heap s \<and>
         fst (getinstance cls args' kwargs' (snd (getinstance cls args kwargs s))) =
           (case construct cls args' kwargs' of
              Inl e' \<Rightarrow> Inl (Raised e')
            | Inr obj \<Rightarrow> Inr (length (heap s)))"
proof -
  let ?s1 = "s\<lparr>stdout := stdout s @ [''singleton(): creating class '' @ class_name cls]\<rparr>"
  have failed: "getinstance cls args kwargs s = (Inl (Raised e), ?s1)"
    using assms by (rule getinstance_raises)
  have still: "instances ?s1 (class_id cls) = None"
    using assms(1) by simp
  have again: "fst (getinstance cls args' kwargs' ?s1) =
           (case construct cls args' kwargs' of
              Inl e' \<Rightarrow> Inl (Raised e')
            | Inr obj \<Rightarrow> Inr (length (heap s)))"
  proof (cases "construct cls args' kwargs'")
    case (Inl e')
    with getinstance_raises [OF still Inl] show ?thesis by simp
  next
    case (Inr obj)
    with getinstance_constructs [OF still Inr] show ?thesis by simp
  qed
  from failed again show ?thesis by simp
qed

theorem failed_construction_not_cached_witness:
  "instances \<lparr>instances = Map.empty, heap = [] :: nat list list, stdout = []\<rparr>
     (class_id \<lparr>class_id = 0, class_name = ''A'',
        construct = (\<lambda>args kwargs. if args = [] then Inl (0::nat) else (Inr args :: nat + nat list))\<rparr>) = None \<and>
   fst (getinstance \<lparr>class_id = 0, class_name = ''A'',
          construct = (\<lambda>args kwargs. if args = [] then Inl (0::nat) else (Inr args :: nat + nat list))\<rparr>
        [] [] \<lparr>instances = Map.empty, heap = [], stdout = []\<rparr>) = Inl (Raised 0) \<and>
   instances (snd (getinstance \<lparr>class_id = 0, class_name = ''A'',
          construct = (\<lambda>args kwargs. if args = [] then Inl (0::nat) else (Inr args :: nat + nat list))\<rparr>
        [] [] \<lparr>instances = Map.empty, heap = [], stdout = []\<rparr>)) = Map.empty \<and>
   fst (getinstance \<lparr>class_id = 0, class_name = ''A'',
          construct = (\<lambda>args kwargs. if args = [] then Inl (0::nat) else (Inr args :: nat + nat list))\<rparr>
        [5] []
        (snd (getinstance \<lparr>class_id = 0, class_name = ''A'',
          construct = (\<lambda>args kwargs. if args = [] then Inl (0::nat) else (Inr args :: nat + nat list))\<rparr>
        [] [] \<lparr>instances = Map.empty, heap = [], stdout = []\<rparr>))) = Inr 0"
proof -
  let ?C = "\<lparr>class_id = 0, class_name = ''A'',
          construct = (\<lambda>args kwargs. if args = [] then Inl (0::nat) else (Inr args :: nat + nat list))\<rparr>"
  let ?S = "\<lparr>instances = Map.empty, heap = [] :: nat list list, stdout = []\<rparr>"
  have h1: "instances ?S (class_id ?C) = None" by simp
  have h2: "construct ?C [] [] = Inl 0" by simp
  note w = failed_construction_not_cached [OF h1 h2, of "[5]" "[]"]
  from w have a: "fst (getinstance ?C [] [] ?S) = Inl (Raised 0)" by (elim conjE)
  from w have b: "instances (snd (getinstance ?C [] [] ?S)) = Map.empty" by simp
  from w have c: "fst (getinstance ?C [5] [] (snd (getinstance ?C [] [] ?S))) = Inr 0" by simp
  from h1 a b c show ?thesis by (intro conjI)
qed

end
